theory Spec2Isabelle
  imports Complex_Main
begin

section \<open>The chess library's values\<close>

text \<open>
  The widget of \<^verbatim>\<open>chess_app.py\<close> works on values of the python-chess library: colours,
  piece types, pieces, squares numbered 0 (a1) to 63 (h8), and moves. A move is compared
  by its origin, destination and promotion piece.
\<close>

datatype color = White | Black

datatype piece_type = Pawn | Knight | Bishop | Rook | Queen | King

datatype piece = Piece (piece_type: piece_type) (color: color)

type_synonym square = int

datatype move = Move (from_square: square) (to_square: square) (promotion: "piece_type option")

text \<open>\<^verbatim>\<open>chess.square(file, rank)\<close>, \<^verbatim>\<open>chess.square_file\<close> (\<^verbatim>\<open>square & 7\<close>) and
  \<^verbatim>\<open>chess.square_rank\<close> (\<^verbatim>\<open>square >> 3\<close>); \<^verbatim>\<open>chess.SQUARES\<close> is \<^verbatim>\<open>range(64)\<close>.\<close>

definition square :: "int \<Rightarrow> int \<Rightarrow> square" where
  "square file_index rank_index = rank_index * 8 + file_index"

definition square_file :: "square \<Rightarrow> int" where
  "square_file sq = sq mod 8"

definition square_rank :: "square \<Rightarrow> int" where
  "square_rank sq = sq div 8"

definition SQUARES :: "square list" where
  "SQUARES = map int [0..<64]"

text \<open>\<^verbatim>\<open>bool(move)\<close>: python-chess makes only the null move (a1 to a1, no promotion) false.\<close>

definition move_truthy :: "move \<Rightarrow> bool" where
  "move_truthy m = (from_square m \<noteq> 0 \<or> to_square m \<noteq> 0 \<or> promotion m \<noteq> None)"

section \<open>The rules engine as a parameter\<close>

text \<open>
  The board object (\<^verbatim>\<open>chess.Board\<close>) is not part of the repository. The widget uses it
  through the calls below, so the model takes them as a record of functions over an
  arbitrary type of positions \<open>'b\<close>: \<open>initial\<close> is \<^verbatim>\<open>chess.Board()\<close> (and what
  \<^verbatim>\<open>board.reset()\<close> restores), \<open>legal_moves\<close> lists \<^verbatim>\<open>board.legal_moves\<close>, and the
  queries have the library's names. \<open>push\<close> is \<^verbatim>\<open>board.push(move)\<close>, from the old
  position to the new one. The library does not test that the move is legal, but it
  asserts that the origin square holds a piece: \<open>push\<close> is \<open>None\<close> where
  \<^verbatim>\<open>board.push\<close> raises \<^verbatim>\<open>AssertionError\<close>.
\<close>

record 'b engine =
  initial :: 'b
  push :: "'b \<Rightarrow> move \<Rightarrow> 'b option"
  legal_moves :: "'b \<Rightarrow> move list"
  piece_at :: "'b \<Rightarrow> square \<Rightarrow> piece option"
  turn :: "'b \<Rightarrow> color"
  is_check :: "'b \<Rightarrow> bool"
  is_capture :: "'b \<Rightarrow> move \<Rightarrow> bool"
  is_en_passant :: "'b \<Rightarrow> move \<Rightarrow> bool"

section \<open>The widget's state\<close>

text \<open>
  The attributes of \<^verbatim>\<open>ChessBoardWidget\<close> set in \<^verbatim>\<open>__init__\<close>. \<open>piece_pixmaps\<close> tells
  for which pieces \<^verbatim>\<open>loadPieceImages\<close> found an image. An animation object is modelled
  by a flag: \<open>bounceAnim\<close> and \<open>kingBounceAnim\<close> are true when the attribute is not
  \<^verbatim>\<open>None\<close>. The index into the history is a natural number: the source starts it at 0,
  decrements it only when it is positive, and otherwise assigns a length.
\<close>

record 'b widget =
  board :: 'b
  selected_square :: "square option"
  piece_pixmaps :: "piece \<Rightarrow> bool"
  move_history :: "move list"
  current_move_index :: nat
  animating :: bool
  anim_progress :: real
  pending_move :: "move option"
  anim_start_point :: "int \<times> int"
  anim_end_point :: "int \<times> int"
  bounce_scale :: real
  bounceAnim :: bool
  king_bounce_scale :: real
  kingBounceAnim :: bool

datatype error = AttributeError | AssertionError

datatype key = Key_Left | Key_Right | Key_Other

text \<open>
  What reaches the widget: a mouse press at a pixel, a key press, a repaint, the
  \<^verbatim>\<open>finished\<close> signal of the move animation, and the three property setters that the
  running animations call with interpolated values.
\<close>

datatype event =
    MousePress int int
  | KeyPress key
  | Paint
  | AnimFinished
  | SetAnimProgress real
  | SetBounceScale real
  | SetKingBounceScale real

definition square_size :: int where
  "square_size = 60"

definition board_size :: int where
  "board_size = square_size * 8"

definition init :: "'b engine \<Rightarrow> (piece \<Rightarrow> bool) \<Rightarrow> 'b widget" where
  "init E pixmaps =
     \<lparr>board = initial E, selected_square = None, piece_pixmaps = pixmaps,
      move_history = [], current_move_index = 0,
      animating = False, anim_progress = 0, pending_move = None,
      anim_start_point = (0, 0), anim_end_point = (0, 0),
      bounce_scale = 1, bounceAnim = False,
      king_bounce_scale = 1, kingBounceAnim = False\<rparr>"

section \<open>The widget's methods\<close>

text \<open>The loop of \<^verbatim>\<open>resetBoardToIndex\<close>: push the moves of a list in order; the first
  push that raises ends the loop, and the method, with its exception.\<close>

fun push_moves :: "'b engine \<Rightarrow> 'b \<Rightarrow> move list \<Rightarrow> 'b option" where
  "push_moves E b [] = Some b"
| "push_moves E b (m # ms) =
     (case push E b m of None \<Rightarrow> None | Some b' \<Rightarrow> push_moves E b' ms)"

definition resetBoardToIndex :: "'b engine \<Rightarrow> 'b widget \<Rightarrow> error + 'b widget" where
  "resetBoardToIndex E s =
     (case push_moves E (initial E) (take (current_move_index s) (move_history s)) of
        None \<Rightarrow> Inl AssertionError
      | Some b \<Rightarrow> Inr (s\<lparr>board := b\<rparr>))"

definition bouncePiece :: "'b widget \<Rightarrow> 'b widget" where
  "bouncePiece s = s\<lparr>bounceAnim := True\<rparr>"

definition startKingBounce :: "'b widget \<Rightarrow> 'b widget" where
  "startKingBounce s = (if \<not> kingBounceAnim s then s\<lparr>kingBounceAnim := True\<rparr> else s)"

definition stopKingBounce :: "'b widget \<Rightarrow> 'b widget" where
  "stopKingBounce s =
     (if kingBounceAnim s then s\<lparr>kingBounceAnim := False, king_bounce_scale := 1\<rparr> else s)"

definition startAnimation :: "'b widget \<Rightarrow> move \<Rightarrow> 'b widget" where
  "startAnimation s m =
     (let source_col = square_file (from_square m);
          source_row = 7 - square_rank (from_square m);
          dest_col = square_file (to_square m);
          dest_row = 7 - square_rank (to_square m)
      in s\<lparr>pending_move := Some m,
            anim_start_point := (source_col * square_size, source_row * square_size),
            anim_end_point := (dest_col * square_size, dest_row * square_size),
            animating := True,
            anim_progress := 0\<rparr>)"

text \<open>
  \<^verbatim>\<open>finishAnimation\<close> is the slot of the \<^verbatim>\<open>finished\<close> signal. Its first statement is
  \<^verbatim>\<open>self.board.push(self.pending_move)\<close>: with no pending move it hands \<^verbatim>\<open>None\<close> to the
  library, which is not a move, and with a move that the library refuses the assertion
  fails; either way the method ends there and commits nothing. The message box of
  \<^verbatim>\<open>checkGameStatus\<close> and the calls of \<^verbatim>\<open>update()\<close> change no attribute.
\<close>

definition finishAnimation :: "'b engine \<Rightarrow> 'b widget \<Rightarrow> error + 'b widget" where
  "finishAnimation E s =
     (case pending_move s of
        None \<Rightarrow> Inl AttributeError
      | Some m \<Rightarrow>
          (case push E (board s) m of
             None \<Rightarrow> Inl AssertionError
           | Some b \<Rightarrow>
               (let kept = (if current_move_index s < length (move_history s)
                            then take (current_move_index s) (move_history s)
                            else move_history s);
                    h = kept @ [m];
                    s1 = s\<lparr>board := b, move_history := h, current_move_index := length h,
                            pending_move := None, animating := False\<rparr>
                in Inr (if \<not> is_check E b then stopKingBounce s1 else s1))))"

definition keyPressEvent :: "'b engine \<Rightarrow> 'b widget \<Rightarrow> key \<Rightarrow> error + 'b widget" where
  "keyPressEvent E s k =
     (case k of
        Key_Left \<Rightarrow>
          (if current_move_index s > 0
           then resetBoardToIndex E (s\<lparr>current_move_index := current_move_index s - 1\<rparr>)
           else Inr s)
      | Key_Right \<Rightarrow>
          (if current_move_index s < length (move_history s)
           then resetBoardToIndex E (s\<lparr>current_move_index := current_move_index s + 1\<rparr>)
           else Inr s)
      | Key_Other \<Rightarrow> Inr s)"

text \<open>
  \<^verbatim>\<open>mousePressEvent\<close>. In the branch with a selection the source reads
  \<^verbatim>\<open>self.board.piece_at(self.selected_square).piece_type\<close> with no test for \<^verbatim>\<open>None\<close>:
  on an empty selected square that is an \<^verbatim>\<open>AttributeError\<close>.
\<close>

definition mousePressEvent :: "'b engine \<Rightarrow> 'b widget \<Rightarrow> int \<Rightarrow> int \<Rightarrow> error + 'b widget" where
  "mousePressEvent E s x y =
     (if animating s then Inr s
      else
        (let col = x div square_size;
             row = y div square_size;
             sq = square col (7 - row)
         in case selected_square s of
              None \<Rightarrow>
                (case piece_at E (board s) sq of
                   None \<Rightarrow> Inr s
                 | Some p \<Rightarrow>
                     (if color p = turn E (board s)
                      then Inr (bouncePiece (s\<lparr>selected_square := Some sq\<rparr>))
                      else Inr s))
            | Some sel \<Rightarrow>
                (case piece_at E (board s) sel of
                   None \<Rightarrow> Inl AttributeError
                 | Some p \<Rightarrow>
                     (let m = (if piece_type p = Pawn
                                  \<and> (square_rank sq = 0 \<or> square_rank sq = 7)
                               then Move sel sq (Some Queen)
                               else Move sel sq None);
                          s1 = (if m \<in> set (legal_moves E (board s))
                                then startAnimation s m else s)
                      in Inr (s1\<lparr>selected_square := None\<rparr>)))))"

text \<open>
  \<^verbatim>\<open>paintEvent\<close> draws, and one line of it changes the widget: when it draws the king of
  the side to move and that side is in check, it starts the king's bounce.
  \<open>paint_piece\<close> is the body of the loop over \<^verbatim>\<open>chess.SQUARES\<close>, with its two
  \<^verbatim>\<open>continue\<close> statements for the squares of a move in flight.
\<close>

definition paint_piece :: "'b engine \<Rightarrow> square \<Rightarrow> 'b widget \<Rightarrow> 'b widget" where
  "paint_piece E sq s =
     (case piece_at E (board s) sq of
        None \<Rightarrow> s
      | Some p \<Rightarrow>
          (if animating s
              \<and> (case pending_move s of
                    None \<Rightarrow> False
                  | Some m \<Rightarrow> move_truthy m
                      \<and> (sq = from_square m
                          \<or> (sq = to_square m \<and> color p \<noteq> turn E (board s))))
           then s
           else if piece_pixmaps s p
           then (if piece_type p = King \<and> color p = turn E (board s) \<and> is_check E (board s)
                 then (if \<not> kingBounceAnim s then startKingBounce s else s)
                 else s)
           else s))"

definition paintEvent :: "'b engine \<Rightarrow> 'b widget \<Rightarrow> 'b widget" where
  "paintEvent E s = fold (paint_piece E) SQUARES s"

text \<open>
  The capture highlights of \<^verbatim>\<open>paintEvent\<close>: \<open>captured_sq\<close> is the square computed for
  one capturing move, \<open>killable_squares\<close> the set the loop over the legal moves builds
  (nothing is highlighted without a selection or during an animation).
\<close>

definition captured_sq :: "'b engine \<Rightarrow> 'b \<Rightarrow> move \<Rightarrow> square" where
  "captured_sq E b m =
     (if is_en_passant E b m
      then (case piece_at E b (from_square m) of
              None \<Rightarrow> to_square m + 8
            | Some p \<Rightarrow> (if color p = White then to_square m - 8 else to_square m + 8))
      else to_square m)"

definition killable_squares :: "'b engine \<Rightarrow> 'b widget \<Rightarrow> square set" where
  "killable_squares E s =
     (case selected_square s of
        None \<Rightarrow> {}
      | Some sel \<Rightarrow>
          (if animating s then {}
           else set (map (captured_sq E (board s))
                       (filter (\<lambda>m. from_square m = sel \<and> is_capture E (board s) m)
                          (legal_moves E (board s))))))"

section \<open>Events\<close>

definition dispatch :: "'b engine \<Rightarrow> 'b widget \<Rightarrow> event \<Rightarrow> error + 'b widget" where
  "dispatch E s ev =
     (case ev of
        MousePress x y \<Rightarrow> mousePressEvent E s x y
      | KeyPress k \<Rightarrow> keyPressEvent E s k
      | Paint \<Rightarrow> Inr (paintEvent E s)
      | AnimFinished \<Rightarrow> finishAnimation E s
      | SetAnimProgress v \<Rightarrow> Inr (s\<lparr>anim_progress := v\<rparr>)
      | SetBounceScale v \<Rightarrow> Inr (s\<lparr>bounce_scale := v\<rparr>)
      | SetKingBounceScale v \<Rightarrow> Inr (s\<lparr>king_bounce_scale := v\<rparr>))"

text \<open>
  What the toolkit can deliver in a state: a mouse press lies inside the widget, whose
  size is fixed at \<open>board_size\<close>; the \<^verbatim>\<open>finished\<close> signal and the progress setter come
  from the move animation, which runs from \<^verbatim>\<open>startAnimation\<close> to \<^verbatim>\<open>finishAnimation\<close>;
  a scale setter comes from an animation that has been created.
\<close>

definition enabled :: "'b widget \<Rightarrow> event \<Rightarrow> bool" where
  "enabled s ev =
     (case ev of
        MousePress x y \<Rightarrow> 0 \<le> x \<and> x < board_size \<and> 0 \<le> y \<and> y < board_size
      | KeyPress k \<Rightarrow> True
      | Paint \<Rightarrow> True
      | AnimFinished \<Rightarrow> animating s
      | SetAnimProgress v \<Rightarrow> animating s
      | SetBounceScale v \<Rightarrow> bounceAnim s
      | SetKingBounceScale v \<Rightarrow> kingBounceAnim s)"

inductive reachable :: "'b engine \<Rightarrow> 'b widget \<Rightarrow> bool" for E :: "'b engine" where
  reachable_init: "reachable E (init E pixmaps)"
| reachable_step: "reachable E s \<Longrightarrow> enabled s ev \<Longrightarrow> dispatch E s ev = Inr s' \<Longrightarrow> reachable E s'"

text \<open>Running a list of events; an exception ends the run, an event that cannot be
  delivered is passed over.\<close>

fun exec :: "'b engine \<Rightarrow> 'b widget \<Rightarrow> event list \<Rightarrow> error + 'b widget" where
  "exec E s [] = Inr s"
| "exec E s (ev # evs) =
     (if enabled s ev
      then (case dispatch E s ev of Inl e \<Rightarrow> Inl e | Inr s' \<Rightarrow> exec E s' evs)
      else exec E s evs)"

text \<open>The position the specification describes: the moves before the cursor, replayed
  from the initial position through the engine; there is none when the engine refuses
  one of them.\<close>

definition spec_position :: "'b engine \<Rightarrow> move list \<Rightarrow> nat \<Rightarrow> 'b option" where
  "spec_position E h c =
     foldl (\<lambda>acc m. case acc of None \<Rightarrow> None | Some b \<Rightarrow> push E b m)
       (Some (initial E)) (take c h)"

section \<open>Invariants\<close>

text \<open>The board shows the replayed position, and the whole history can be replayed; a
  move is pending exactly during an animation; \<open>draws_checked_king\<close> is the condition under which the loop body of
  \<^verbatim>\<open>paintEvent\<close> reaches \<^verbatim>\<open>startKingBounce\<close> at a square.\<close>

definition replayed :: "'b engine \<Rightarrow> 'b widget \<Rightarrow> bool" where
  "replayed E s =
     (spec_position E (move_history s) (current_move_index s) = Some (board s)
      \<and> spec_position E (move_history s) (length (move_history s)) \<noteq> None)"

definition in_flight_ok :: "'b widget \<Rightarrow> bool" where
  "in_flight_ok s = ((pending_move s \<noteq> None) = animating s)"

definition draws_checked_king :: "'b engine \<Rightarrow> 'b widget \<Rightarrow> square \<Rightarrow> bool" where
  "draws_checked_king E s sq =
     (case piece_at E (board s) sq of
        None \<Rightarrow> False
      | Some p \<Rightarrow>
          \<not> (animating s
              \<and> (case pending_move s of
                    None \<Rightarrow> False
                  | Some m \<Rightarrow> move_truthy m
                      \<and> (sq = from_square m
                          \<or> (sq = to_square m \<and> color p \<noteq> turn E (board s)))))
          \<and> piece_pixmaps s p
          \<and> piece_type p = King \<and> color p = turn E (board s) \<and> is_check E (board s))"

section \<open>A reference engine\<close>

text \<open>
  The theorems about the widget hold for every engine. The concrete runs below need one:
  \<open>std_engine\<close> plays the standard rules on a board of 64 squares. A position holds the
  pieces, the side to move, the en-passant square and the rooks that may still castle.
  As in python-chess, \<open>std_push\<close> does not ask whether the move is legal, and it puts
  the moved piece down in the colour of the side to move; a move from an empty square
  fails the library's assertion, and \<open>std_push\<close> is \<open>None\<close> there. A king is looked up
  from the highest square down, and castling is also accepted and played when it is
  given as the king moving onto its own rook.
\<close>

record position =
  occupied :: "square \<Rightarrow> piece option"
  side :: color
  ep_square :: "square option"
  castling_rights :: "square list"

fun opposite :: "color \<Rightarrow> color" where
  "opposite White = Black"
| "opposite Black = White"

definition back_rank :: "int \<Rightarrow> piece_type" where
  "back_rank f = (if f = 0 \<or> f = 7 then Rook else if f = 1 \<or> f = 6 then Knight
                  else if f = 2 \<or> f = 5 then Bishop else if f = 3 then Queen else King)"

definition start_occupied :: "square \<Rightarrow> piece option" where
  "start_occupied sq =
     (if 0 \<le> sq \<and> sq < 8 then Some (Piece (back_rank sq) White)
      else if 8 \<le> sq \<and> sq < 16 then Some (Piece Pawn White)
      else if 48 \<le> sq \<and> sq < 56 then Some (Piece Pawn Black)
      else if 56 \<le> sq \<and> sq < 64 then Some (Piece (back_rank (sq - 56)) Black)
      else None)"

definition std_initial :: position where
  "std_initial = \<lparr>occupied = start_occupied, side = White, ep_square = None,
                   castling_rights = [0, 7, 56, 63]\<rparr>"

fun clear_path :: "(square \<Rightarrow> piece option) \<Rightarrow> square \<Rightarrow> int \<Rightarrow> nat \<Rightarrow> bool" where
  "clear_path occ sq d 0 = True"
| "clear_path occ sq d (Suc n) = (occ (sq + d) = None \<and> clear_path occ (sq + d) d n)"

definition slides :: "(square \<Rightarrow> piece option) \<Rightarrow> square \<Rightarrow> int \<Rightarrow> int \<Rightarrow> bool" where
  "slides occ a df dr =
     clear_path occ a (sgn dr * 8 + sgn df) (nat (max \<bar>df\<bar> \<bar>dr\<bar> - 1))"

definition attacks :: "(square \<Rightarrow> piece option) \<Rightarrow> square \<Rightarrow> square \<Rightarrow> bool" where
  "attacks occ a b =
     (case occ a of
        None \<Rightarrow> False
      | Some p \<Rightarrow>
          (let df = square_file b - square_file a; dr = square_rank b - square_rank a in
           0 \<le> b \<and> b < 64 \<and>
           (case piece_type p of
              Pawn \<Rightarrow> \<bar>df\<bar> = 1 \<and> dr = (if color p = White then 1 else - 1)
            | Knight \<Rightarrow> (\<bar>df\<bar> = 1 \<and> \<bar>dr\<bar> = 2) \<or> (\<bar>df\<bar> = 2 \<and> \<bar>dr\<bar> = 1)
            | King \<Rightarrow> max \<bar>df\<bar> \<bar>dr\<bar> = 1
            | Bishop \<Rightarrow> \<bar>df\<bar> = \<bar>dr\<bar> \<and> df \<noteq> 0 \<and> slides occ a df dr
            | Rook \<Rightarrow> (df = 0) \<noteq> (dr = 0) \<and> slides occ a df dr
            | Queen \<Rightarrow> ((\<bar>df\<bar> = \<bar>dr\<bar> \<and> df \<noteq> 0) \<or> (df = 0) \<noteq> (dr = 0))
                         \<and> slides occ a df dr)))"

definition attacked_by :: "(square \<Rightarrow> piece option) \<Rightarrow> color \<Rightarrow> square \<Rightarrow> bool" where
  "attacked_by occ c b =
     list_ex (\<lambda>a. (case occ a of None \<Rightarrow> False | Some p \<Rightarrow> color p = c \<and> attacks occ a b)) SQUARES"

definition king :: "(square \<Rightarrow> piece option) \<Rightarrow> color \<Rightarrow> square option" where
  "king occ c = find (\<lambda>sq. occ sq = Some (Piece King c)) (rev SQUARES)"

definition std_is_check :: "position \<Rightarrow> bool" where
  "std_is_check p =
     (case king (occupied p) (side p) of
        None \<Rightarrow> False
      | Some k \<Rightarrow> attacked_by (occupied p) (opposite (side p)) k)"

definition std_is_en_passant :: "position \<Rightarrow> move \<Rightarrow> bool" where
  "std_is_en_passant p m =
     (ep_square p = Some (to_square m)
      \<and> (case occupied p (from_square m) of None \<Rightarrow> False | Some pc \<Rightarrow> piece_type pc = Pawn)
      \<and> (\<bar>to_square m - from_square m\<bar> = 7 \<or> \<bar>to_square m - from_square m\<bar> = 9)
      \<and> occupied p (to_square m) = None)"

definition held_by :: "position \<Rightarrow> color \<Rightarrow> square \<Rightarrow> bool" where
  "held_by p c sq = (case occupied p sq of None \<Rightarrow> False | Some pc \<Rightarrow> color pc = c)"

definition std_is_capture :: "position \<Rightarrow> move \<Rightarrow> bool" where
  "std_is_capture p m =
     ((from_square m \<noteq> to_square m
        \<and> (held_by p (opposite (side p)) (from_square m)
             \<or> held_by p (opposite (side p)) (to_square m)))
      \<or> std_is_en_passant p m)"

definition is_castling :: "position \<Rightarrow> move \<Rightarrow> bool" where
  "is_castling p m =
     (let a = from_square m; b = to_square m in
      occupied p a = Some (Piece King (side p))
      \<and> a = (if side p = White then 4 else 60)
      \<and> (\<bar>b - a\<bar> = 2
          \<or> ((b = a + 3 \<or> b = a - 4) \<and> occupied p b = Some (Piece Rook (side p)))))"

definition std_push :: "position \<Rightarrow> move \<Rightarrow> position option" where
  "std_push p m =
     (let a = from_square m; b = to_square m; c = side p; occ = occupied p in
      case occ a of
        None \<Rightarrow> None
      | Some pc \<Rightarrow>
          (let t = piece_type pc;
               occ1 = (if std_is_en_passant p m
                       then occ(a := None, (b + (if c = White then - 8 else 8)) := None)
                       else occ(a := None));
               occ2 = (if is_castling p m
                       then (if a < b
                             then occ1(a + 3 := None, a + 1 \<mapsto> Piece Rook c,
                                       a + 2 \<mapsto> Piece King c)
                             else occ1(a - 4 := None, a - 1 \<mapsto> Piece Rook c,
                                       a - 2 \<mapsto> Piece King c))
                       else occ1(b \<mapsto> Piece (case promotion m of None \<Rightarrow> t | Some q \<Rightarrow> q) c));
               keep = filter (\<lambda>r. r \<noteq> a \<and> r \<noteq> b
                                \<and> \<not> (t = King \<and> square_rank r = (if c = White then 0 else 7)))
                             (castling_rights p)
           in Some \<lparr>occupied = occ2, side = opposite c,
               ep_square = (if t = Pawn \<and> b - a = 16 \<and> square_rank a = 1 then Some (a + 8)
                            else if t = Pawn \<and> b - a = - 16 \<and> square_rank a = 6 then Some (a - 8)
                            else None),
               castling_rights = keep\<rparr>))"

text \<open>The position after a move that \<open>std_push\<close> accepts (and the old one otherwise).\<close>

definition pushed :: "position \<Rightarrow> move \<Rightarrow> position" where
  "pushed p m = (case std_push p m of None \<Rightarrow> p | Some q \<Rightarrow> q)"

definition pawn_move :: "position \<Rightarrow> move \<Rightarrow> bool" where
  "pawn_move p m =
     (let a = from_square m; b = to_square m; c = side p; occ = occupied p;
          up = (if c = White then 8 else - 8);
          df = square_file b - square_file a;
          last = (square_rank b = (if c = White then 7 else 0))
      in 0 \<le> b \<and> b < 64
         \<and> (if last then promotion m \<in> {Some Queen, Some Rook, Some Bishop, Some Knight}
             else promotion m = None)
         \<and> ((b = a + up \<and> occ b = None)
             \<or> (b = a + 2 * up \<and> square_rank a = (if c = White then 1 else 6)
                  \<and> occ (a + up) = None \<and> occ b = None)
             \<or> (\<bar>df\<bar> = 1 \<and> square_rank b - square_rank a = (if c = White then 1 else - 1)
                  \<and> (held_by p (opposite c) b \<or> (ep_square p = Some b \<and> occ b = None)))))"

definition castling_move :: "position \<Rightarrow> move \<Rightarrow> bool" where
  "castling_move p m =
     (let a = from_square m; b = to_square m; c = side p; occ = occupied p;
          rook_sq = (if a < b then a + 3 else a - 4); d = (if a < b then 1 else - 1) in
      is_castling p m \<and> promotion m = None
      \<and> rook_sq \<in> set (castling_rights p) \<and> occ rook_sq = Some (Piece Rook c)
      \<and> occ (a + d) = None \<and> occ (a + 2 * d) = None \<and> (a < b \<or> occ (a - 3) = None)
      \<and> \<not> attacked_by occ (opposite c) a
      \<and> \<not> attacked_by occ (opposite c) (a + d)
      \<and> \<not> attacked_by occ (opposite c) (a + 2 * d))"

definition is_pseudo_legal :: "position \<Rightarrow> move \<Rightarrow> bool" where
  "is_pseudo_legal p m =
     (case occupied p (from_square m) of
        None \<Rightarrow> False
      | Some pc \<Rightarrow>
          color pc = side p
          \<and> (promotion m = None \<or> piece_type pc = Pawn)
          \<and> (castling_move p m
              \<or> (\<not> held_by p (side p) (to_square m)
                  \<and> (if piece_type pc = Pawn then pawn_move p m
                      else promotion m = None
                           \<and> attacks (occupied p) (from_square m) (to_square m)))))"

definition is_into_check :: "position \<Rightarrow> move \<Rightarrow> bool" where
  "is_into_check p m =
     (let occ = occupied (pushed p m) in
      case king occ (side p) of
        None \<Rightarrow> False
      | Some k \<Rightarrow> attacked_by occ (opposite (side p)) k)"

definition is_legal :: "position \<Rightarrow> move \<Rightarrow> bool" where
  "is_legal p m = (is_pseudo_legal p m \<and> \<not> is_into_check p m)"

definition std_legal_moves :: "position \<Rightarrow> move list" where
  "std_legal_moves p =
     filter (is_legal p)
       (concat (map (\<lambda>a. concat (map (\<lambda>b. map (Move a b)
          [None, Some Queen, Some Rook, Some Bishop, Some Knight]) SQUARES)) SQUARES))"

definition std_engine :: "position engine" where
  "std_engine =
     \<lparr>initial = std_initial, push = std_push, legal_moves = std_legal_moves,
      piece_at = occupied, turn = side, is_check = std_is_check,
      is_capture = std_is_capture, is_en_passant = std_is_en_passant\<rparr>"

text \<open>Every piece image was found.\<close>

definition all_pixmaps :: "piece \<Rightarrow> bool" where
  "all_pixmaps p = True"

section \<open>Concrete games\<close>

text \<open>
  Squares by number: d1 = 3, g1 = 6, d2 = 11, e2 = 12, f3 = 21, d4 = 27, e4 = 28,
  d5 = 35, e5 = 36, f5 = 37, h5 = 39, a6 = 40, d6 = 43, a7 = 48, d7 = 51, e7 = 52,
  f7 = 53, e8 = 60. A square of file \<open>f\<close> and rank \<open>r\<close> (both from 0) is clicked at the
  pixel \<open>(60 * f + 30, 60 * (7 - r) + 30)\<close>.
\<close>

definition after_e4 :: position where
  "after_e4 = pushed std_initial (Move 12 28 None)"

definition after_e4_e5 :: position where
  "after_e4_e5 = pushed after_e4 (Move 52 36 None)"

definition after_e4_e5_Nf3 :: position where
  "after_e4_e5_Nf3 = pushed after_e4_e5 (Move 6 21 None)"

definition after_e4_f5 :: position where
  "after_e4_f5 = pushed after_e4 (Move 53 37 None)"

definition after_Qh5 :: position where
  "after_Qh5 = pushed after_e4_f5 (Move 3 39 None)"

definition after_e4_d5 :: position where
  "after_e4_d5 = pushed after_e4 (Move 51 35 None)"

definition after_e4_a6 :: position where
  "after_e4_a6 = pushed after_e4 (Move 48 40 None)"

definition after_e4_a6_e5 :: position where
  "after_e4_a6_e5 = pushed after_e4_a6 (Move 28 36 None)"

definition ep_position :: position where
  "ep_position = pushed after_e4_a6_e5 (Move 51 35 None)"

definition play_e4 :: "event list" where
  "play_e4 = [MousePress 270 390, MousePress 270 270, AnimFinished]"

definition play_e5 :: "event list" where
  "play_e5 = [MousePress 270 90, MousePress 270 210, AnimFinished]"

definition play_Nf3 :: "event list" where
  "play_Nf3 = [MousePress 390 450, MousePress 330 330, AnimFinished]"

definition play_f5 :: "event list" where
  "play_f5 = [MousePress 330 90, MousePress 330 210, AnimFinished]"

definition play_Qh5 :: "event list" where
  "play_Qh5 = [MousePress 210 450, MousePress 450 210, AnimFinished]"

definition play_a6 :: "event list" where
  "play_a6 = [MousePress 30 90, MousePress 30 150, AnimFinished]"

definition play_e4e5 :: "event list" where
  "play_e4e5 = [MousePress 270 270, MousePress 270 210, AnimFinished]"

definition play_d5 :: "event list" where
  "play_d5 = [MousePress 210 90, MousePress 210 210, AnimFinished]"

text \<open>1. e4, back to the start, e2 picked up.\<close>

definition picked_trace :: "event list" where
  "picked_trace = play_e4 @ [KeyPress Key_Left, MousePress 270 390]"

definition picked_state :: "position widget" where
  "picked_state =
     \<lparr>board = std_initial, selected_square = Some 12, piece_pixmaps = all_pixmaps,
      move_history = [Move 12 28 None], current_move_index = 0,
      animating = False, anim_progress = 0, pending_move = None,
      anim_start_point = (240, 360), anim_end_point = (240, 240),
      bounce_scale = 1, bounceAnim = True,
      king_bounce_scale = 1, kingBounceAnim = False\<rparr>"

text \<open>Then forward again: e2 is still selected, and empty.\<close>

definition stale_state :: "position widget" where
  "stale_state = picked_state\<lparr>board := after_e4, current_move_index := 1\<rparr>"

definition crash_trace :: "event list" where
  "crash_trace = picked_trace @ [KeyPress Key_Right, MousePress 270 270]"

text \<open>1. e4 e5 2. Nf3, two steps back, and d7-d5 in flight.\<close>

definition redo_trace :: "event list" where
  "redo_trace = play_e4 @ play_e5 @ play_Nf3
     @ [KeyPress Key_Left, KeyPress Key_Left, MousePress 210 90, MousePress 210 210]"

definition redo_state :: "position widget" where
  "redo_state =
     \<lparr>board = after_e4, selected_square = None, piece_pixmaps = all_pixmaps,
      move_history = [Move 12 28 None, Move 52 36 None, Move 6 21 None],
      current_move_index = 1,
      animating = True, anim_progress = 0, pending_move = Some (Move 51 35 None),
      anim_start_point = (180, 60), anim_end_point = (180, 180),
      bounce_scale = 1, bounceAnim = True,
      king_bounce_scale = 1, kingBounceAnim = False\<rparr>"

text \<open>1. e4, and e7-e5 in flight.\<close>

definition flight_trace :: "event list" where
  "flight_trace = play_e4 @ [MousePress 270 90, MousePress 270 210]"

definition flight_state :: "position widget" where
  "flight_state =
     \<lparr>board = after_e4, selected_square = None, piece_pixmaps = all_pixmaps,
      move_history = [Move 12 28 None], current_move_index = 1,
      animating = True, anim_progress = 0, pending_move = Some (Move 52 36 None),
      anim_start_point = (240, 60), anim_end_point = (240, 180),
      bounce_scale = 1, bounceAnim = True,
      king_bounce_scale = 1, kingBounceAnim = False\<rparr>"

text \<open>The same after the left arrow: the move is still in flight, over the initial
  position.\<close>

definition rewound_state :: "position widget" where
  "rewound_state = flight_state\<lparr>current_move_index := 0, board := std_initial\<rparr>"



text \<open>1. e4 a6 2. e5 d5, and the pawn on e5 picked up: it can take on d6 en passant.\<close>

definition ep_trace :: "event list" where
  "ep_trace = play_e4 @ play_a6 @ play_e4e5 @ play_d5 @ [MousePress 270 210]"

definition ep_state :: "position widget" where
  "ep_state =
     \<lparr>board = ep_position, selected_square = Some 36, piece_pixmaps = all_pixmaps,
      move_history = [Move 12 28 None, Move 48 40 None, Move 28 36 None, Move 51 35 None],
      current_move_index = 4,
      animating = False, anim_progress = 0, pending_move = None,
      anim_start_point = (180, 60), anim_end_point = (180, 180),
      bounce_scale = 1, bounceAnim = True,
      king_bounce_scale = 1, kingBounceAnim = False\<rparr>"

text \<open>1. e4 f5 2. Qh5+, a repaint, one value from the king's bounce, one step back.\<close>

definition checked_state :: "position widget" where
  "checked_state =
     \<lparr>board = after_Qh5, selected_square = None, piece_pixmaps = all_pixmaps,
      move_history = [Move 12 28 None, Move 53 37 None, Move 3 39 None],
      current_move_index = 3,
      animating = False, anim_progress = 0, pending_move = None,
      anim_start_point = (180, 420), anim_end_point = (420, 180),
      bounce_scale = 1, bounceAnim = True,
      king_bounce_scale = 1, kingBounceAnim = False\<rparr>"

definition bounce_trace :: "event list" where
  "bounce_trace = play_e4 @ play_f5 @ play_Qh5
     @ [Paint, SetKingBounceScale (6 / 5), KeyPress Key_Left]"

definition bounce_state :: "position widget" where
  "bounce_state =
     checked_state\<lparr>board := after_e4_f5, current_move_index := 2,
                   king_bounce_scale := 6 / 5, kingBounceAnim := True\<rparr>"

section \<open>General facts about the widget\<close>

text \<open>Replaying: once a push is refused, the rest of the list changes nothing.\<close>

lemma replay_None:
  "foldl (\<lambda>acc m. case acc of None \<Rightarrow> None | Some b \<Rightarrow> push E b m) None ms = None"
  by (induction ms) simp_all

lemma push_moves_foldl:
  "push_moves E b ms
   = foldl (\<lambda>acc m. case acc of None \<Rightarrow> None | Some b \<Rightarrow> push E b m) (Some b) ms"
proof (induction ms arbitrary: b)
  case Nil
  show ?case by simp
next
  case (Cons m ms)
  show ?case
  proof (cases "push E b m")
    case None
    then show ?thesis by (simp add: replay_None)
  next
    case (Some b')
    then show ?thesis by (simp add: Cons.IH)
  qed
qed

lemma push_moves_spec_position:
  "push_moves E (initial E) (take c h) = spec_position E h c"
  by (simp add: push_moves_foldl spec_position_def)

lemma resetBoardToIndex_eq:
  "resetBoardToIndex E s
   = (case spec_position E (move_history s) (current_move_index s) of
        None \<Rightarrow> Inl AssertionError
      | Some b \<Rightarrow> Inr (s\<lparr>board := b\<rparr>))"
  by (simp add: resetBoardToIndex_def push_moves_spec_position)

lemma spec_position_prefix:
  assumes "spec_position E h (length h) \<noteq> None"
  shows "spec_position E h k \<noteq> None"
proof
  assume none: "spec_position E h k = None"
  have "spec_position E h (length h)
      = foldl (\<lambda>acc m. case acc of None \<Rightarrow> None | Some b \<Rightarrow> push E b m)
          (Some (initial E)) (take k h @ drop k h)"
    by (simp add: spec_position_def)
  also have "\<dots> = foldl (\<lambda>acc m. case acc of None \<Rightarrow> None | Some b \<Rightarrow> push E b m)
          (spec_position E h k) (drop k h)"
    by (simp only: foldl_append spec_position_def)
  also have "\<dots> = None"
    by (simp only: none replay_None)
  finally show False using assms by simp
qed

lemma spec_position_snoc:
  "spec_position E (xs @ [m]) (length (xs @ [m]))
   = (case spec_position E xs (length xs) of None \<Rightarrow> None | Some b \<Rightarrow> push E b m)"
  by (simp add: spec_position_def)

lemma spec_position_take:
  "spec_position E (take c h) (length (take c h)) = spec_position E h c"
  unfolding spec_position_def by (simp only: take_all order_refl)

lemma replayed_reset:
  assumes "resetBoardToIndex E s = Inr s'"
    and "spec_position E (move_history s) (length (move_history s)) \<noteq> None"
  shows "replayed E s'"
  using assms
  by (auto simp: resetBoardToIndex_eq replayed_def split: option.splits)

lemma reset_returns:
  assumes "spec_position E (move_history s) (length (move_history s)) \<noteq> None"
  shows "\<exists>s'. resetBoardToIndex E s = Inr s'"
  using spec_position_prefix[OF assms, of "current_move_index s"]
  by (auto simp: resetBoardToIndex_eq split: option.splits)

lemma reset_replayed:
  assumes "replayed E s"
  shows "resetBoardToIndex E s = Inr s"
  using assms by (simp add: resetBoardToIndex_eq replayed_def)

lemma startKingBounce_fields:
  "board (startKingBounce s) = board s"
  "move_history (startKingBounce s) = move_history s"
  "current_move_index (startKingBounce s) = current_move_index s"
  "pending_move (startKingBounce s) = pending_move s"
  "animating (startKingBounce s) = animating s"
  "selected_square (startKingBounce s) = selected_square s"
  "piece_pixmaps (startKingBounce s) = piece_pixmaps s"
  by (simp_all add: startKingBounce_def)

lemma stopKingBounce_fields:
  "board (stopKingBounce s) = board s"
  "move_history (stopKingBounce s) = move_history s"
  "current_move_index (stopKingBounce s) = current_move_index s"
  "pending_move (stopKingBounce s) = pending_move s"
  "animating (stopKingBounce s) = animating s"
  "selected_square (stopKingBounce s) = selected_square s"
  "piece_pixmaps (stopKingBounce s) = piece_pixmaps s"
  by (simp_all add: stopKingBounce_def)

lemma paint_piece_eq:
  "paint_piece E sq s = (if draws_checked_king E s sq then startKingBounce s else s)"
  by (auto simp: paint_piece_def draws_checked_king_def startKingBounce_def split: option.splits)

lemma draws_checked_king_startKingBounce:
  "draws_checked_king E (startKingBounce s) sq = draws_checked_king E s sq"
  by (simp add: draws_checked_king_def startKingBounce_fields cong: option.case_cong)

lemma startKingBounce_idem: "startKingBounce (startKingBounce s) = startKingBounce s"
  by (simp add: startKingBounce_def)

lemma fold_paint_piece:
  "fold (paint_piece E) sqs s = (if list_ex (draws_checked_king E s) sqs then startKingBounce s else s)"
proof (induction sqs arbitrary: s)
  case Nil
  show ?case by simp
next
  case (Cons sq sqs)
  show ?case
  proof (cases "draws_checked_king E s sq")
    case True
    then have step: "paint_piece E sq s = startKingBounce s"
      by (simp add: paint_piece_eq)
    have "fold (paint_piece E) (sq # sqs) s = fold (paint_piece E) sqs (startKingBounce s)"
      by (simp add: step)
    also have "\<dots> = startKingBounce s"
      by (simp add: Cons.IH draws_checked_king_startKingBounce startKingBounce_idem)
    finally show ?thesis using True by simp
  next
    case False
    then have step: "paint_piece E sq s = s"
      by (simp add: paint_piece_eq)
    have "fold (paint_piece E) (sq # sqs) s = fold (paint_piece E) sqs s"
      by (simp add: step)
    then show ?thesis using False by (simp add: Cons.IH)
  qed
qed

lemma paintEvent_eq:
  "paintEvent E s = (if list_ex (draws_checked_king E s) SQUARES then startKingBounce s else s)"
  by (simp add: paintEvent_def fold_paint_piece)

lemma paintEvent_fields:
  "board (paintEvent E s) = board s"
  "move_history (paintEvent E s) = move_history s"
  "current_move_index (paintEvent E s) = current_move_index s"
  "pending_move (paintEvent E s) = pending_move s"
  "animating (paintEvent E s) = animating s"
  "selected_square (paintEvent E s) = selected_square s"
  by (simp_all add: paintEvent_eq startKingBounce_fields)

lemma mousePressEvent_keeps:
  assumes "mousePressEvent E s x y = Inr s'"
  shows "board s' = board s" and "move_history s' = move_history s"
    and "current_move_index s' = current_move_index s"
  using assms
  by (auto simp: mousePressEvent_def Let_def bouncePiece_def startAnimation_def
      split: if_splits option.splits)

text \<open>What \<^verbatim>\<open>finishAnimation\<close> does when the engine accepts the pending move, and when
  it does not.\<close>

lemma finishAnimation_commit:
  assumes "pending_move s = Some m" and "push E (board s) m = Some b"
  shows "\<exists>s'. finishAnimation E s = Inr s'
           \<and> board s' = b
           \<and> move_history s' = take (current_move_index s) (move_history s) @ [m]
           \<and> current_move_index s' = length (move_history s')
           \<and> pending_move s' = None \<and> \<not> animating s'
           \<and> selected_square s' = selected_square s"
  using assms by (auto simp: finishAnimation_def Let_def stopKingBounce_def)

lemma finishAnimation_refused:
  assumes "pending_move s = Some m" and "push E (board s) m = None"
  shows "finishAnimation E s = Inl AssertionError"
  using assms by (simp add: finishAnimation_def)

lemma finishAnimation_Inr:
  assumes "finishAnimation E s = Inr s'"
  obtains m b where "pending_move s = Some m" and "push E (board s) m = Some b"
  using assms by (auto simp: finishAnimation_def split: option.splits)

lemma replayed_finishAnimation:
  assumes "replayed E s" and "finishAnimation E s = Inr s'"
  shows "replayed E s'"
proof -
  from assms(2) obtain m b where m: "pending_move s = Some m"
    and b: "push E (board s) m = Some b"
    by (rule finishAnimation_Inr)
  define kept where "kept = take (current_move_index s) (move_history s)"
  from finishAnimation_commit[OF m b] assms(2)
  have bs: "board s' = b" and h: "move_history s' = kept @ [m]"
    and c: "current_move_index s' = length (kept @ [m])"
    by (auto simp: kept_def)
  have "spec_position E kept (length kept) = Some (board s)"
    using assms(1) unfolding kept_def spec_position_take by (simp add: replayed_def)
  then have "spec_position E (kept @ [m]) (length (kept @ [m])) = Some b"
    unfolding spec_position_snoc by (simp add: b)
  then show ?thesis
    unfolding replayed_def h c bs by simp
qed

text \<open>A key press: only the cursor and the board can change, and in a state whose
  history can be replayed it does not raise.\<close>

lemma keyPressEvent_fields:
  assumes "keyPressEvent E s k = Inr s'"
  shows "selected_square s' = selected_square s \<and> move_history s' = move_history s
       \<and> pending_move s' = pending_move s \<and> animating s' = animating s
       \<and> piece_pixmaps s' = piece_pixmaps s
       \<and> kingBounceAnim s' = kingBounceAnim s
       \<and> king_bounce_scale s' = king_bounce_scale s"
  using assms
  by (cases k)
     (auto simp: keyPressEvent_def resetBoardToIndex_eq split: if_splits option.splits)

lemma replayed_keyPressEvent:
  assumes "replayed E s" and "keyPressEvent E s k = Inr s'"
  shows "replayed E s'"
proof -
  have whole: "spec_position E (move_history s) (length (move_history s)) \<noteq> None"
    using assms(1) by (simp add: replayed_def)
  show ?thesis
  proof (cases k)
    case Key_Left
    show ?thesis
    proof (cases "current_move_index s > 0")
      case True
      with assms(2) Key_Left
      have "resetBoardToIndex E (s\<lparr>current_move_index := current_move_index s - 1\<rparr>) = Inr s'"
        by (simp add: keyPressEvent_def)
      then show ?thesis by (rule replayed_reset) (simp add: whole)
    next
      case False
      with assms Key_Left show ?thesis by (simp add: keyPressEvent_def)
    qed
  next
    case Key_Right
    show ?thesis
    proof (cases "current_move_index s < length (move_history s)")
      case True
      with assms(2) Key_Right
      have "resetBoardToIndex E (s\<lparr>current_move_index := current_move_index s + 1\<rparr>) = Inr s'"
        by (simp add: keyPressEvent_def)
      then show ?thesis by (rule replayed_reset) (simp add: whole)
    next
      case False
      with assms Key_Right show ?thesis by (simp add: keyPressEvent_def)
    qed
  next
    case Key_Other
    with assms show ?thesis by (simp add: keyPressEvent_def)
  qed
qed

lemma keyPressEvent_returns:
  assumes "replayed E s"
  shows "\<exists>s'. keyPressEvent E s k = Inr s'"
proof -
  have whole: "spec_position E (move_history s) (length (move_history s)) \<noteq> None"
    using assms by (simp add: replayed_def)
  have "\<exists>s'. resetBoardToIndex E (s\<lparr>current_move_index := c\<rparr>) = Inr s'" for c
    by (rule reset_returns) (simp add: whole)
  then show ?thesis
    by (cases k) (simp_all add: keyPressEvent_def)
qed

lemma replayed_dispatch:
  assumes "replayed E s" and "dispatch E s ev = Inr s'"
  shows "replayed E s'"
proof (cases ev)
  case (MousePress x y)
  with assms(2) have "mousePressEvent E s x y = Inr s'"
    by (simp add: dispatch_def)
  from mousePressEvent_keeps[OF this] assms(1) show ?thesis
    by (simp add: replayed_def)
next
  case (KeyPress k)
  with assms(2) have "keyPressEvent E s k = Inr s'"
    by (simp add: dispatch_def)
  with assms(1) show ?thesis by (rule replayed_keyPressEvent)
next
  case Paint
  with assms show ?thesis
    by (auto simp: dispatch_def replayed_def paintEvent_fields)
next
  case AnimFinished
  with assms show ?thesis
    by (auto simp: dispatch_def intro: replayed_finishAnimation)
qed (use assms in \<open>auto simp: dispatch_def replayed_def\<close>)

lemma reachable_replayed: "reachable E s \<Longrightarrow> replayed E s"
proof (induction rule: reachable.induct)
  case (reachable_init pixmaps)
  show ?case by (simp add: replayed_def init_def spec_position_def)
next
  case (reachable_step s ev s')
  then show ?case by (blast intro: replayed_dispatch)
qed

lemma in_flight_ok_dispatch:
  assumes "in_flight_ok s" and "dispatch E s ev = Inr s'"
  shows "in_flight_ok s'"
proof (cases ev)
  case (MousePress x y)
  with assms show ?thesis
    by (auto simp: dispatch_def in_flight_ok_def mousePressEvent_def Let_def bouncePiece_def
        startAnimation_def split: if_splits option.splits)
next
  case (KeyPress k)
  with assms(2) have "keyPressEvent E s k = Inr s'"
    by (simp add: dispatch_def)
  from keyPressEvent_fields[OF this] assms(1) show ?thesis
    by (simp add: in_flight_ok_def)
next
  case Paint
  with assms show ?thesis
    by (auto simp: dispatch_def in_flight_ok_def paintEvent_fields)
next
  case AnimFinished
  with assms show ?thesis
    by (auto simp: dispatch_def in_flight_ok_def finishAnimation_def Let_def stopKingBounce_fields
        split: option.splits if_splits)
qed (use assms in \<open>auto simp: dispatch_def in_flight_ok_def\<close>)

lemma reachable_in_flight_ok: "reachable E s \<Longrightarrow> in_flight_ok s"
proof (induction rule: reachable.induct)
  case (reachable_init pixmaps)
  show ?case by (simp add: in_flight_ok_def init_def)
next
  case (reachable_step s ev s')
  then show ?case by (blast intro: in_flight_ok_dispatch)
qed

lemma exec_reachable:
  "reachable E s \<Longrightarrow> exec E s evs = Inr s' \<Longrightarrow> reachable E s'"
proof (induction evs arbitrary: s)
  case Nil
  then show ?case by simp
next
  case (Cons ev evs)
  show ?case
  proof (cases "enabled s ev")
    case True
    with Cons.prems(2) obtain s1 where d: "dispatch E s ev = Inr s1" and r: "exec E s1 evs = Inr s'"
      by (auto split: sum.splits)
    from Cons.prems(1) True d have "reachable E s1" by (rule reachable_step)
    with r show ?thesis by (rule Cons.IH[rotated])
  next
    case False
    with Cons show ?thesis by simp
  qed
qed

text \<open>A selection and an animation exclude each other.\<close>

lemma idle_selection_dispatch:
  assumes "animating s \<longrightarrow> selected_square s = None" and "dispatch E s ev = Inr s'"
  shows "animating s' \<longrightarrow> selected_square s' = None"
proof (cases ev)
  case (MousePress x y)
  with assms show ?thesis
    by (auto simp: dispatch_def mousePressEvent_def Let_def bouncePiece_def
        startAnimation_def split: if_splits option.splits)
next
  case (KeyPress k)
  with assms(2) have "keyPressEvent E s k = Inr s'"
    by (simp add: dispatch_def)
  from keyPressEvent_fields[OF this] assms(1) show ?thesis
    by simp
next
  case Paint
  with assms show ?thesis
    by (auto simp: dispatch_def paintEvent_fields)
next
  case AnimFinished
  with assms show ?thesis
    by (auto simp: dispatch_def finishAnimation_def Let_def stopKingBounce_fields
        split: option.splits if_splits)
qed (use assms in \<open>auto simp: dispatch_def\<close>)

lemma reachable_idle_selection:
  "reachable E s \<Longrightarrow> animating s \<Longrightarrow> selected_square s = None"
proof (induction rule: reachable.induct)
  case (reachable_init pixmaps)
  then show ?case by (simp add: init_def)
next
  case (reachable_step s ev s')
  from idle_selection_dispatch[OF _ reachable_step.hyps(3)] reachable_step.IH
    reachable_step.prems
  show ?case by blast
qed

text \<open>
  A click with a selection on a square that holds a piece: the selection is cleared, and
  the move goes to the animation exactly when it is among the legal moves; when it is
  not, nothing but the selection changes.
\<close>

lemma mousePressEvent_attempt:
  assumes "selected_square s = Some sel" and "\<not> animating s"
    and "piece_at E (board s) sel = Some p"
    and "sq = square (x div square_size) (7 - y div square_size)"
    and "m = (if piece_type p = Pawn \<and> (square_rank sq = 0 \<or> square_rank sq = 7)
              then Move sel sq (Some Queen) else Move sel sq None)"
  shows "mousePressEvent E s x y
         = Inr (if m \<in> set (legal_moves E (board s))
                then (startAnimation s m)\<lparr>selected_square := None\<rparr>
                else s\<lparr>selected_square := None\<rparr>)"
proof -
  have "mousePressEvent E s x y
        = Inr ((if m \<in> set (legal_moves E (board s)) then startAnimation s m else s)
                \<lparr>selected_square := None\<rparr>)"
    unfolding mousePressEvent_def Let_def assms(4)[symmetric]
    by (simp only: assms(1,2,3,5) if_False option.case)
  then show ?thesis by (simp split: if_splits)
qed

lemma mousePressEvent_attempt_effect:
  assumes "selected_square s = Some sel" and "\<not> animating s"
    and "piece_at E (board s) sel = Some p"
    and "mousePressEvent E s x y = Inr s'"
  shows "selected_square s' = None"
    and "animating s' \<Longrightarrow> \<exists>m \<in> set (legal_moves E (board s)). pending_move s' = Some m"
  using assms
  by (auto simp: mousePressEvent_def Let_def startAnimation_def split: if_splits)

section \<open>Facts of the reference engine\<close>

lemma std_engine_simps:
  "initial std_engine = std_initial"
  "push std_engine = std_push"
  "legal_moves std_engine = std_legal_moves"
  "piece_at std_engine = occupied"
  "turn std_engine = side"
  "is_check std_engine = std_is_check"
  "is_capture std_engine = std_is_capture"
  "is_en_passant std_engine = std_is_en_passant"
  by (simp_all add: std_engine_def)

lemma SQUARES_mem: "sq \<in> set SQUARES \<longleftrightarrow> 0 \<le> sq \<and> sq < 64"
proof
  assume "sq \<in> set SQUARES"
  then show "0 \<le> sq \<and> sq < 64" unfolding SQUARES_def by auto
next
  assume h: "0 \<le> sq \<and> sq < 64"
  then have "nat sq \<in> {0..<64}" by auto
  moreover have "int (nat sq) = sq" using h by simp
  ultimately show "sq \<in> set SQUARES" unfolding SQUARES_def
    by (metis image_eqI set_map set_upt)
qed

lemma std_legal_moves_mem:
  "m \<in> set (std_legal_moves p) \<longleftrightarrow>
     is_legal p m \<and> from_square m \<in> set SQUARES \<and> to_square m \<in> set SQUARES
     \<and> promotion m \<in> {None, Some Queen, Some Rook, Some Bishop, Some Knight}"
  by (cases m) (auto simp: std_legal_moves_def)

lemma legal_mem:
  "is_legal p (Move a b None) \<Longrightarrow> 0 \<le> a \<Longrightarrow> a < 64 \<Longrightarrow> 0 \<le> b \<Longrightarrow> b < 64
   \<Longrightarrow> Move a b None \<in> set (std_legal_moves p)"
  by (simp add: std_legal_moves_mem SQUARES_mem)

text \<open>\<open>std_push\<close> accepts a move exactly when its origin square holds a piece.\<close>

lemma std_push_Some:
  "occupied p (from_square m) \<noteq> None \<Longrightarrow> std_push p m = Some (pushed p m)"
  by (auto simp: pushed_def std_push_def Let_def split: option.splits)

lemma std_push_None:
  "occupied p (from_square m) = None \<Longrightarrow> std_push p m = None"
  by (simp add: std_push_def)

lemmas positions =
  after_e4_def after_e4_e5_def after_e4_e5_Nf3_def after_e4_f5_def after_Qh5_def
  after_e4_d5_def after_e4_a6_def after_e4_a6_e5_def ep_position_def

lemma initial_facts:
  "side std_initial = White"
  "occupied std_initial 12 = Some (Piece Pawn White)"
  "occupied std_initial 52 = Some (Piece Pawn Black)"
  "\<not> std_is_check std_initial"
  by code_simp+

lemma initial_legal: "Move 12 28 None \<in> set (std_legal_moves std_initial)"
proof -
  have "is_legal std_initial (Move 12 28 None)" by code_simp
  then show ?thesis by (simp add: legal_mem)
qed

lemma initial_empty_e4:
  "occupied std_initial 28 = None"
  "\<not> std_is_check (pushed std_initial (Move 52 36 None))"
  by code_simp+

lemma after_e4_illegal: "Move 12 28 None \<notin> set (std_legal_moves after_e4)"
proof -
  have "\<not> is_legal after_e4 (Move 12 28 None)" unfolding positions by code_simp
  then show ?thesis by (simp add: std_legal_moves_mem)
qed

lemma initial_illegal: "Move 52 36 None \<notin> set (std_legal_moves std_initial)"
proof -
  have "\<not> is_legal std_initial (Move 52 36 None)" by code_simp
  then show ?thesis by (simp add: std_legal_moves_mem)
qed

lemma after_e4_facts:
  "side after_e4 = Black"
  "\<not> std_is_check after_e4"
  "occupied after_e4 12 = None"
  "occupied after_e4 28 = Some (Piece Pawn White)"
  "occupied after_e4 48 = Some (Piece Pawn Black)"
  "occupied after_e4 51 = Some (Piece Pawn Black)"
  "occupied after_e4 52 = Some (Piece Pawn Black)"
  "occupied after_e4 53 = Some (Piece Pawn Black)"
  unfolding positions by code_simp+

lemma after_e4_legal:
  "Move 52 36 None \<in> set (std_legal_moves after_e4)"
  "Move 51 35 None \<in> set (std_legal_moves after_e4)"
  "Move 53 37 None \<in> set (std_legal_moves after_e4)"
  "Move 48 40 None \<in> set (std_legal_moves after_e4)"
proof -
  have "is_legal after_e4 (Move 52 36 None)" unfolding positions by code_simp
  then show "Move 52 36 None \<in> set (std_legal_moves after_e4)" by (simp add: legal_mem)
  have "is_legal after_e4 (Move 51 35 None)" unfolding positions by code_simp
  then show "Move 51 35 None \<in> set (std_legal_moves after_e4)" by (simp add: legal_mem)
  have "is_legal after_e4 (Move 53 37 None)" unfolding positions by code_simp
  then show "Move 53 37 None \<in> set (std_legal_moves after_e4)" by (simp add: legal_mem)
  have "is_legal after_e4 (Move 48 40 None)" unfolding positions by code_simp
  then show "Move 48 40 None \<in> set (std_legal_moves after_e4)" by (simp add: legal_mem)
qed

lemma after_e4_e5_facts:
  "side after_e4_e5 = White"
  "\<not> std_is_check after_e4_e5"
  "occupied after_e4_e5 6 = Some (Piece Knight White)"
  "\<not> std_is_check after_e4_e5_Nf3"
  unfolding positions by code_simp+

lemma after_e4_e5_legal: "Move 6 21 None \<in> set (std_legal_moves after_e4_e5)"
proof -
  have "is_legal after_e4_e5 (Move 6 21 None)" unfolding positions by code_simp
  then show ?thesis by (simp add: legal_mem)
qed

lemma after_e4_d5_facts:
  "side after_e4_d5 = White"
  "\<not> std_is_check after_e4_d5"
  "occupied after_e4_d5 28 = Some (Piece Pawn White)"
  unfolding positions by code_simp+

lemma after_e4_d5_legal: "Move 28 35 None \<in> set (std_legal_moves after_e4_d5)"
proof -
  have "is_legal after_e4_d5 (Move 28 35 None)" unfolding positions by code_simp
  then show ?thesis by (simp add: legal_mem)
qed

lemma after_e4_f5_facts:
  "side after_e4_f5 = White"
  "\<not> std_is_check after_e4_f5"
  "occupied after_e4_f5 3 = Some (Piece Queen White)"
  unfolding positions by code_simp+

lemma after_e4_f5_legal: "Move 3 39 None \<in> set (std_legal_moves after_e4_f5)"
proof -
  have "is_legal after_e4_f5 (Move 3 39 None)" unfolding positions by code_simp
  then show ?thesis by (simp add: legal_mem)
qed

lemma after_Qh5_facts:
  "side after_Qh5 = Black"
  "std_is_check after_Qh5"
  "occupied after_Qh5 60 = Some (Piece King Black)"
  unfolding positions by code_simp+

lemma ep_line_facts:
  "side after_e4_a6 = White"
  "\<not> std_is_check after_e4_a6"
  "occupied after_e4_a6 28 = Some (Piece Pawn White)"
  "side after_e4_a6_e5 = Black"
  "\<not> std_is_check after_e4_a6_e5"
  "occupied after_e4_a6_e5 51 = Some (Piece Pawn Black)"
  unfolding positions by code_simp+

lemma ep_line_legal:
  "Move 28 36 None \<in> set (std_legal_moves after_e4_a6)"
  "Move 51 35 None \<in> set (std_legal_moves after_e4_a6_e5)"
proof -
  have "is_legal after_e4_a6 (Move 28 36 None)" unfolding positions by code_simp
  then show "Move 28 36 None \<in> set (std_legal_moves after_e4_a6)" by (simp add: legal_mem)
  have "is_legal after_e4_a6_e5 (Move 51 35 None)" unfolding positions by code_simp
  then show "Move 51 35 None \<in> set (std_legal_moves after_e4_a6_e5)" by (simp add: legal_mem)
qed

lemma ep_position_facts:
  "side ep_position = White"
  "\<not> std_is_check ep_position"
  "occupied ep_position 36 = Some (Piece Pawn White)"
  "occupied ep_position 35 = Some (Piece Pawn Black)"
  "occupied ep_position 43 = None"
  "std_is_en_passant ep_position (Move 36 43 None)"
  "std_is_capture ep_position (Move 36 43 None)"
  unfolding positions by code_simp+

lemma ep_position_legal: "Move 36 43 None \<in> set (std_legal_moves ep_position)"
proof -
  have "is_legal ep_position (Move 36 43 None)" unfolding positions by code_simp
  then show ?thesis by (simp add: legal_mem)
qed

section \<open>The concrete runs\<close>

lemmas run_simps =
  init_def enabled_def dispatch_def board_size_def square_size_def
  mousePressEvent_def keyPressEvent_def finishAnimation_def resetBoardToIndex_def
  startAnimation_def bouncePiece_def stopKingBounce_def
  square_def square_rank_def square_file_def std_engine_simps Let_def
  std_push_Some std_push_None

lemmas plays =
  play_e4_def play_e5_def play_Nf3_def play_f5_def play_Qh5_def play_a6_def
  play_e4e5_def play_d5_def

lemmas board_facts =
  initial_facts initial_legal after_e4_facts after_e4_legal after_e4_e5_facts
  after_e4_e5_legal after_e4_d5_facts after_e4_d5_legal after_e4_f5_facts
  after_e4_f5_legal after_Qh5_facts initial_empty_e4
  ep_line_facts ep_line_legal ep_position_facts ep_position_legal

lemma exec_append:
  "exec E s (xs @ ys) = (case exec E s xs of Inl e \<Rightarrow> Inl e | Inr s' \<Rightarrow> exec E s' ys)"
  by (induction xs arbitrary: s) (auto split: sum.splits)

lemma reachable_exec_init:
  "exec E (init E pixmaps) evs = Inr s \<Longrightarrow> reachable E s"
  using exec_reachable[OF reachable_init] by blast

lemma exec_picked:
  "exec std_engine (init std_engine all_pixmaps) picked_trace = Inr picked_state"
  by (simp add: picked_trace_def plays picked_state_def run_simps
      board_facts[unfolded positions] positions)

lemma exec_stale:
  "exec std_engine picked_state [KeyPress Key_Right] = Inr stale_state"
  by (simp add: picked_state_def stale_state_def run_simps positions
      board_facts[unfolded positions])

lemma exec_redo:
  "exec std_engine (init std_engine all_pixmaps) redo_trace = Inr redo_state"
  by (simp add: redo_trace_def plays redo_state_def run_simps
      board_facts[unfolded positions] positions)

lemma exec_flight:
  "exec std_engine (init std_engine all_pixmaps) flight_trace = Inr flight_state"
  by (simp add: flight_trace_def plays flight_state_def run_simps
      board_facts[unfolded positions] positions)

lemma key_rewound:
  "keyPressEvent std_engine flight_state Key_Left = Inr rewound_state"
  by (simp add: flight_state_def rewound_state_def run_simps)


lemma exec_ep:
  "exec std_engine (init std_engine all_pixmaps) ep_trace = Inr ep_state"
  by (simp add: ep_trace_def plays ep_state_def run_simps
      board_facts[unfolded positions] positions)

lemma exec_checked:
  "exec std_engine (init std_engine all_pixmaps) (play_e4 @ play_f5 @ play_Qh5) = Inr checked_state"
  by (simp add: plays checked_state_def run_simps
      board_facts[unfolded positions] positions)

lemma paintEvent_starts_bounce:
  assumes "draws_checked_king E s sq" and "sq \<in> set SQUARES"
  shows "paintEvent E s = startKingBounce s"
proof -
  from assms have "list_ex (draws_checked_king E s) SQUARES"
    by (auto simp: list_ex_iff)
  then show ?thesis by (simp add: paintEvent_eq)
qed

lemma paint_checked:
  "paintEvent std_engine checked_state = checked_state\<lparr>kingBounceAnim := True\<rparr>"
proof -
  have "draws_checked_king std_engine checked_state 60"
    by (simp add: draws_checked_king_def checked_state_def std_engine_simps after_Qh5_facts
        all_pixmaps_def)
  moreover have "(60::int) \<in> set SQUARES" by (simp add: SQUARES_mem)
  ultimately have "paintEvent std_engine checked_state = startKingBounce checked_state"
    by (rule paintEvent_starts_bounce)
  then show ?thesis by (simp add: startKingBounce_def checked_state_def)
qed

lemma exec_bounce_tail:
  "exec std_engine checked_state [Paint, SetKingBounceScale (6 / 5), KeyPress Key_Left]
   = Inr bounce_state"
  by (simp add: enabled_def dispatch_def paint_checked)
     (simp add: checked_state_def bounce_state_def run_simps positions
        board_facts[unfolded positions])

lemma exec_bounce:
  "exec std_engine (init std_engine all_pixmaps) bounce_trace = Inr bounce_state"
proof -
  have split_trace: "bounce_trace = (play_e4 @ play_f5 @ play_Qh5)
          @ [Paint, SetKingBounceScale (6 / 5), KeyPress Key_Left]"
    by (simp add: bounce_trace_def)
  show ?thesis
    unfolding split_trace
    by (rule trans[OF exec_append]) (simp only: exec_checked sum.case exec_bounce_tail)
qed

section \<open>The claims\<close>

text \<open>
  Claim C1. In every reachable state the board is the position obtained by replaying the
  moves before the cursor from the initial position, and that replay is accepted by the
  engine. So the full replay of \<^verbatim>\<open>resetBoardToIndex\<close> returns the state as it is (read
  again, it is the same again), and an arrow key returns a state whose board is again
  the replay up to its cursor. When a move is in flight, \<^verbatim>\<open>finishAnimation\<close> raises if
  the engine refuses the move and commits nothing; if the engine accepts it, the method
  returns, and the board reached by that single push is the replay of the new history
  up to the new cursor: the full replay returns that state unchanged.
\<close>

theorem board_is_replay_of_history:
  assumes "reachable E s"
  shows "spec_position E (move_history s) (current_move_index s) = Some (board s)
       \<and> resetBoardToIndex E s = Inr s
       \<and> (\<forall>k. \<exists>s1. keyPressEvent E s k = Inr s1
              \<and> spec_position E (move_history s1) (current_move_index s1) = Some (board s1))
       \<and> (animating s \<longrightarrow>
            (\<exists>m. pending_move s = Some m
               \<and> (push E (board s) m = None \<longrightarrow> finishAnimation E s = Inl AssertionError)
               \<and> (\<forall>b. push E (board s) m = Some b \<longrightarrow>
                    (\<exists>s'. finishAnimation E s = Inr s' \<and> board s' = b
                       \<and> spec_position E (move_history s') (current_move_index s') = Some b
                       \<and> resetBoardToIndex E s' = Inr s'))))"
proof -
  have inv: "replayed E s" using assms by (rule reachable_replayed)
  have rep: "spec_position E (move_history s) (current_move_index s) = Some (board s)"
    using inv by (simp add: replayed_def)
  have same: "resetBoardToIndex E s = Inr s"
    using inv by (rule reset_replayed)
  have nav: "\<exists>s1. keyPressEvent E s k = Inr s1
              \<and> spec_position E (move_history s1) (current_move_index s1) = Some (board s1)"
    for k
  proof -
    from keyPressEvent_returns[OF inv] obtain s1 where k: "keyPressEvent E s k = Inr s1"
      by blast
    from inv k have "replayed E s1" by (rule replayed_keyPressEvent)
    with k show ?thesis by (auto simp: replayed_def)
  qed
  have fin: "\<exists>m. pending_move s = Some m
               \<and> (push E (board s) m = None \<longrightarrow> finishAnimation E s = Inl AssertionError)
               \<and> (\<forall>b. push E (board s) m = Some b \<longrightarrow>
                    (\<exists>s'. finishAnimation E s = Inr s' \<and> board s' = b
                       \<and> spec_position E (move_history s') (current_move_index s') = Some b
                       \<and> resetBoardToIndex E s' = Inr s'))"
    if "animating s"
  proof -
    from reachable_in_flight_ok[OF assms] that obtain m where m: "pending_move s = Some m"
      by (auto simp: in_flight_ok_def)
    have refused: "finishAnimation E s = Inl AssertionError" if "push E (board s) m = None"
      using m that by (rule finishAnimation_refused)
    have accepted: "\<exists>s'. finishAnimation E s = Inr s' \<and> board s' = b
                       \<and> spec_position E (move_history s') (current_move_index s') = Some b
                       \<and> resetBoardToIndex E s' = Inr s'"
      if b: "push E (board s) m = Some b" for b
    proof -
      from finishAnimation_commit[OF m b] obtain s' where
        s': "finishAnimation E s = Inr s'" and bs: "board s' = b"
        by blast
      from inv s' have r: "replayed E s'" by (rule replayed_finishAnimation)
      then have "spec_position E (move_history s') (current_move_index s') = Some b"
        by (simp add: replayed_def bs)
      moreover from r have "resetBoardToIndex E s' = Inr s'" by (rule reset_replayed)
      ultimately show ?thesis using s' bs by blast
    qed
    have ref_imp: "push E (board s) m = None \<longrightarrow> finishAnimation E s = Inl AssertionError"
      using refused by (rule impI)
    have acc_all: "\<forall>b. push E (board s) m = Some b \<longrightarrow>
                    (\<exists>s'. finishAnimation E s = Inr s' \<and> board s' = b
                       \<and> spec_position E (move_history s') (current_move_index s') = Some b
                       \<and> resetBoardToIndex E s' = Inr s')"
      using accepted by (intro allI impI)
    from m ref_imp acc_all show ?thesis
      by (intro exI[of _ m] conjI)
  qed
  have nav_all: "\<forall>k. \<exists>s1. keyPressEvent E s k = Inr s1
              \<and> spec_position E (move_history s1) (current_move_index s1) = Some (board s1)"
    using nav by (rule allI)
  from fin have fin_imp: "animating s \<longrightarrow>
            (\<exists>m. pending_move s = Some m
               \<and> (push E (board s) m = None \<longrightarrow> finishAnimation E s = Inl AssertionError)
               \<and> (\<forall>b. push E (board s) m = Some b \<longrightarrow>
                    (\<exists>s'. finishAnimation E s = Inr s' \<and> board s' = b
                       \<and> spec_position E (move_history s') (current_move_index s') = Some b
                       \<and> resetBoardToIndex E s' = Inr s')))"
    by (rule impI)
  from rep same nav_all fin_imp show ?thesis
    by (intro conjI)
qed

text \<open>C1 at a concrete state: the history 1. e4 e5 2. Nf3 with the cursor at 1 and
  d7-d5 in flight. The engine accepts the move, and the commit and the replay agree.\<close>

theorem board_is_replay_of_history_witness:
  "reachable std_engine redo_state
   \<and> animating redo_state
   \<and> spec_position std_engine (move_history redo_state) (current_move_index redo_state)
       = Some (board redo_state)
   \<and> resetBoardToIndex std_engine redo_state = Inr redo_state
   \<and> pending_move redo_state = Some (Move 51 35 None)
   \<and> push std_engine (board redo_state) (Move 51 35 None) = Some after_e4_d5
   \<and> (\<exists>s'. finishAnimation std_engine redo_state = Inr s' \<and> board s' = after_e4_d5
         \<and> resetBoardToIndex std_engine s' = Inr s')"
proof -
  have r: "reachable std_engine redo_state"
    using exec_redo by (rule reachable_exec_init)
  have a: "animating redo_state"
    and p: "pending_move redo_state = Some (Move 51 35 None)"
    by (simp_all add: redo_state_def)
  have pb: "push std_engine (board redo_state) (Move 51 35 None) = Some after_e4_d5"
    by (simp add: redo_state_def std_engine_simps std_push_Some after_e4_facts after_e4_d5_def)
  note T = board_is_replay_of_history[OF r]
  from T a obtain m where m: "pending_move redo_state = Some m"
    and acc: "\<forall>b. push std_engine (board redo_state) m = Some b \<longrightarrow>
                (\<exists>s'. finishAnimation std_engine redo_state = Inr s' \<and> board s' = b
                   \<and> spec_position std_engine (move_history s') (current_move_index s') = Some b
                   \<and> resetBoardToIndex std_engine s' = Inr s')"
    by blast
  from m p have "m = Move 51 35 None" by simp
  with acc pb obtain s' where "finishAnimation std_engine redo_state = Inr s'"
    and "board s' = after_e4_d5" and "resetBoardToIndex std_engine s' = Inr s'"
    by blast
  with T r a p pb show ?thesis by blast
qed


text \<open>
  Claim C3 fails on the code. After 1. e4, the left arrow, a click on e2 (which selects
  the pawn), and the right arrow, the selection is still e2 and the square is empty; the
  next click reads \<^verbatim>\<open>.piece_type\<close> of \<^verbatim>\<open>None\<close> and raises.
\<close>

theorem click_after_navigation_raises:
  "exec std_engine (init std_engine all_pixmaps) crash_trace = Inl AttributeError"
proof -
  have "exec std_engine (init std_engine all_pixmaps) crash_trace
      = exec std_engine picked_state [KeyPress Key_Right, MousePress 270 270]"
    unfolding crash_trace_def
    by (rule trans[OF exec_append]) (simp only: exec_picked sum.case)
  also have "\<dots> = Inl AttributeError"
    by (simp add: picked_state_def run_simps board_facts[unfolded positions])
  finally show ?thesis .
qed

text \<open>
  Claim C4 fails on the code, by the defect of C3. \<^verbatim>\<open>keyPressEvent\<close> replaces the board
  and never clears the selection. After 1. e4, the left arrow and a click on e2, the
  right arrow moves the cursor from 0 to 1 and e2 stays selected, on a square that is
  now empty: the state in which the next click raises.
\<close>

theorem navigation_leaves_stale_selection:
  "reachable std_engine picked_state
   \<and> selected_square picked_state = Some 12
   \<and> current_move_index picked_state = 0
   \<and> keyPressEvent std_engine picked_state Key_Right = Inr stale_state
   \<and> current_move_index stale_state = 1
   \<and> selected_square stale_state = Some 12
   \<and> piece_at std_engine (board stale_state) 12 = None"
proof -
  have r: "reachable std_engine picked_state"
    using exec_picked by (rule reachable_exec_init)
  have k: "keyPressEvent std_engine picked_state Key_Right = Inr stale_state"
    by (simp add: picked_state_def stale_state_def run_simps positions
        board_facts[unfolded positions])
  from r k show ?thesis
    by (simp add: picked_state_def stale_state_def std_engine_simps after_e4_facts)
qed

text \<open>
  Claim C5 fails on the code. With e7-e5 in flight after 1. e4, the left arrow is not
  rejected: the cursor goes from 1 to 0 and the board back to the initial position (e4
  is empty again). The animation then commits e7-e5 on that position, where it is not a
  legal move, and the history is that move alone.
\<close>

theorem navigation_during_animation_not_rejected:
  "exec std_engine (init std_engine all_pixmaps) flight_trace = Inr flight_state
   \<and> animating flight_state
   \<and> current_move_index flight_state = 1
   \<and> piece_at std_engine (board flight_state) 28 = Some (Piece Pawn White)
   \<and> keyPressEvent std_engine flight_state Key_Left = Inr rewound_state
   \<and> current_move_index rewound_state = 0
   \<and> board rewound_state = std_initial
   \<and> piece_at std_engine (board rewound_state) 28 = None
   \<and> Move 52 36 None \<notin> set (legal_moves std_engine std_initial)
   \<and> map_sum id move_history (finishAnimation std_engine rewound_state)
       = Inr [Move 52 36 None]"
proof -
  have f: "map_sum id move_history (finishAnimation std_engine rewound_state)
       = Inr [Move 52 36 None]"
    by (simp add: rewound_state_def flight_state_def run_simps initial_facts initial_empty_e4)
  show ?thesis
    using f
    by (simp add: exec_flight key_rewound initial_illegal std_engine_simps)
       (simp add: rewound_state_def flight_state_def after_e4_facts initial_empty_e4)
qed

text \<open>
  Claim C6 fails on the code, by the defect of C3. In the state reached by 1. e4, left,
  a click on e2 and right, a square is selected and a click attempts e2-e4, which is not
  legal; the selection is not cleared, the handler raises.
\<close>

theorem attempt_from_empty_square_raises:
  "exec std_engine (init std_engine all_pixmaps) (picked_trace @ [KeyPress Key_Right])
     = Inr stale_state
   \<and> selected_square stale_state = Some 12
   \<and> \<not> animating stale_state
   \<and> Move 12 28 None \<notin> set (legal_moves std_engine (board stale_state))
   \<and> mousePressEvent std_engine stale_state 270 270 = Inl AttributeError"
proof -
  have "exec std_engine (init std_engine all_pixmaps) (picked_trace @ [KeyPress Key_Right])
      = Inr stale_state"
    by (rule trans[OF exec_append]) (simp only: exec_picked sum.case exec_stale)
  moreover have "mousePressEvent std_engine stale_state 270 270 = Inl AttributeError"
    by (simp add: stale_state_def picked_state_def run_simps after_e4_facts)
  moreover have "Move 12 28 None \<notin> set (legal_moves std_engine (board stale_state))"
    by (simp add: stale_state_def picked_state_def std_engine_simps after_e4_illegal)
  ultimately show ?thesis
    by (simp add: stale_state_def picked_state_def)
qed

text \<open>
  Claim C7. With a square selected and no animation, every legal capture from that square
  puts its \<open>captured_sq\<close> into the highlighted set, and the set holds nothing else. For
  an en-passant capture that square is on the file of the destination, one rank below
  it when the moving piece is White and one rank above it otherwise, and so is not the
  destination; for any other capture it is the destination.
\<close>

theorem killable_square_of_capture:
  assumes "selected_square s = Some sel" and "\<not> animating s"
    and "m \<in> set (legal_moves E (board s))" and "from_square m = sel"
    and "is_capture E (board s) m"
  shows "captured_sq E (board s) m \<in> killable_squares E s
       \<and> killable_squares E s
           = captured_sq E (board s)
               ` {m' \<in> set (legal_moves E (board s)).
                    from_square m' = sel \<and> is_capture E (board s) m'}
       \<and> (is_en_passant E (board s) m \<longrightarrow>
            captured_sq E (board s) m \<noteq> to_square m
            \<and> square_file (captured_sq E (board s) m) = square_file (to_square m)
            \<and> square_rank (captured_sq E (board s) m)
                = (if (\<exists>p. piece_at E (board s) (from_square m) = Some p \<and> color p = White)
                   then square_rank (to_square m) - 1
                   else square_rank (to_square m) + 1))
       \<and> (\<not> is_en_passant E (board s) m \<longrightarrow> captured_sq E (board s) m = to_square m)"
proof -
  have set_eq: "killable_squares E s
           = captured_sq E (board s)
               ` {m' \<in> set (legal_moves E (board s)).
                    from_square m' = sel \<and> is_capture E (board s) m'}"
    using assms(1,2) by (simp add: killable_squares_def)
  have mem: "captured_sq E (board s) m \<in> killable_squares E s"
    unfolding set_eq using assms(3,4,5) by blast
  have ep: "captured_sq E (board s) m \<noteq> to_square m
            \<and> square_file (captured_sq E (board s) m) = square_file (to_square m)
            \<and> square_rank (captured_sq E (board s) m)
                = (if (\<exists>p. piece_at E (board s) (from_square m) = Some p \<and> color p = White)
                   then square_rank (to_square m) - 1
                   else square_rank (to_square m) + 1)"
    if "is_en_passant E (board s) m"
    using that
    by (auto simp: captured_sq_def square_file_def square_rank_def split: option.splits)
  have other: "captured_sq E (board s) m = to_square m" if "\<not> is_en_passant E (board s) m"
    using that by (simp add: captured_sq_def)
  from mem set_eq ep other show ?thesis by blast
qed

text \<open>C7 after 1. e4 a6 2. e5 d5 with the pawn on e5 selected: for e5 takes d6 en
  passant the highlighted square is d5, where the captured pawn stands.\<close>

theorem killable_square_of_capture_witness:
  "reachable std_engine ep_state
   \<and> selected_square ep_state = Some 36
   \<and> \<not> animating ep_state
   \<and> Move 36 43 None \<in> set (legal_moves std_engine (board ep_state))
   \<and> is_capture std_engine (board ep_state) (Move 36 43 None)
   \<and> is_en_passant std_engine (board ep_state) (Move 36 43 None)
   \<and> captured_sq std_engine (board ep_state) (Move 36 43 None) = 35
   \<and> 35 \<in> killable_squares std_engine ep_state
   \<and> piece_at std_engine (board ep_state) 35 = Some (Piece Pawn Black)"
proof -
  have r: "reachable std_engine ep_state"
    using exec_ep by (rule reachable_exec_init)
  have sel: "selected_square ep_state = Some 36" and an: "\<not> animating ep_state"
    and b: "board ep_state = ep_position"
    by (simp_all add: ep_state_def)
  have legal: "Move 36 43 None \<in> set (legal_moves std_engine (board ep_state))"
    by (simp add: b std_engine_simps ep_position_legal)
  have "from": "from_square (Move 36 43 None) = 36" by simp
  have cap: "is_capture std_engine (board ep_state) (Move 36 43 None)"
    and ep: "is_en_passant std_engine (board ep_state) (Move 36 43 None)"
    by (simp_all add: b std_engine_simps ep_position_facts)
  have sq: "captured_sq std_engine (board ep_state) (Move 36 43 None) = 35"
    by (simp add: captured_sq_def b std_engine_simps ep_position_facts)
  have pawn: "piece_at std_engine (board ep_state) 35 = Some (Piece Pawn Black)"
    by (simp add: b std_engine_simps ep_position_facts)
  from killable_square_of_capture[OF sel an legal "from" cap]
  have "captured_sq std_engine (board ep_state) (Move 36 43 None)
          \<in> killable_squares std_engine ep_state"
    by blast
  then have "35 \<in> killable_squares std_engine ep_state"
    by (simp only: sq)
  with r sel an legal cap ep sq pawn show ?thesis by blast
qed

text \<open>
  Claim C8. In every reachable state a move is pending exactly when the widget is
  animating. Every event keeps that: from any state where it holds, the state after the
  event has it again. And a second move cannot be put in flight: during an animation a
  mouse press changes nothing.
\<close>

theorem pending_move_iff_animating:
  "(reachable E s \<longrightarrow> (pending_move s \<noteq> None) = animating s)
   \<and> ((pending_move s \<noteq> None) = animating s \<and> dispatch E s ev = Inr s'
        \<longrightarrow> (pending_move s' \<noteq> None) = animating s')
   \<and> (animating s \<longrightarrow> mousePressEvent E s x y = Inr s)"
proof -
  have "(pending_move s \<noteq> None) = animating s" if "reachable E s"
    using reachable_in_flight_ok[OF that] by (simp add: in_flight_ok_def)
  moreover have "(pending_move s' \<noteq> None) = animating s'"
    if "(pending_move s \<noteq> None) = animating s" and "dispatch E s ev = Inr s'"
    using in_flight_ok_dispatch[of s E ev s'] that by (simp add: in_flight_ok_def)
  moreover have "mousePressEvent E s x y = Inr s" if "animating s"
    using that by (simp add: mousePressEvent_def)
  ultimately show ?thesis by blast
qed

text \<open>C8 with e7-e5 in flight after 1. e4: a move is pending and the widget animates; a
  click changes nothing; the end of the animation clears both.\<close>

theorem pending_move_iff_animating_witness:
  "reachable std_engine flight_state
   \<and> pending_move flight_state = Some (Move 52 36 None)
   \<and> animating flight_state
   \<and> mousePressEvent std_engine flight_state 270 270 = Inr flight_state
   \<and> (\<exists>s'. dispatch std_engine flight_state AnimFinished = Inr s'
         \<and> pending_move s' = None \<and> \<not> animating s')"
proof -
  have r: "reachable std_engine flight_state"
    using exec_flight by (rule reachable_exec_init)
  have p: "pending_move flight_state = Some (Move 52 36 None)" and a: "animating flight_state"
    by (simp_all add: flight_state_def)
  have pb: "push std_engine (board flight_state) (Move 52 36 None)
          = Some (pushed after_e4 (Move 52 36 None))"
    by (simp add: flight_state_def std_engine_simps std_push_Some after_e4_facts)
  from finishAnimation_commit[OF p pb]
  obtain s' where d: "dispatch std_engine flight_state AnimFinished = Inr s'"
    and p': "pending_move s' = None"
    by (auto simp: dispatch_def)
  have inv: "(pending_move flight_state \<noteq> None) = animating flight_state"
    using pending_move_iff_animating[of std_engine flight_state] r by blast
  have "(pending_move s' \<noteq> None) = animating s'"
    using pending_move_iff_animating[of std_engine flight_state AnimFinished s'] inv d by blast
  with p' have a': "\<not> animating s'" by simp
  have click: "mousePressEvent std_engine flight_state 270 270 = Inr flight_state"
    using pending_move_iff_animating[of std_engine flight_state _ _ 270 270] a by blast
  from r p a click d p' a' show ?thesis by blast
qed

text \<open>
  Claim C9 fails on the code. After 1. e4 f5 2. Qh5+ the repaint starts the king's
  bounce. The left arrow then shows the position before the check, and nothing stops the
  bounce: the side to move is not in check, the bounce animation is still there and its
  scale is not 1.
\<close>

theorem king_bounce_survives_navigation:
  "exec std_engine (init std_engine all_pixmaps) bounce_trace = Inr bounce_state
   \<and> \<not> is_check std_engine (board bounce_state)
   \<and> kingBounceAnim bounce_state
   \<and> king_bounce_scale bounce_state = 6 / 5"
  by (simp add: exec_bounce)
     (simp add: bounce_state_def checked_state_def std_engine_simps after_e4_f5_facts)

text \<open>
  Claim C10 fails on the code, by the defect of C3. In the state reached by 1. e4, left,
  a click on e2 and right, e2 is selected; a click on e2 itself, or on e7 where a pawn
  of the side to move stands, raises and leaves the selection as it is.
\<close>

theorem click_with_stale_selection_raises:
  "selected_square stale_state = Some 12
   \<and> turn std_engine (board stale_state) = Black
   \<and> piece_at std_engine (board stale_state) 52 = Some (Piece Pawn Black)
   \<and> mousePressEvent std_engine stale_state 270 390 = Inl AttributeError
   \<and> mousePressEvent std_engine stale_state 270 90 = Inl AttributeError"
  by (simp add: stale_state_def picked_state_def run_simps after_e4_facts)

end
